theory Spec2Isabelle
  imports Complex_Main "HOL-Library.Sublist" "HOL-Library.AList"
begin

section \<open>Python values used by the three modules\<close>

text \<open>
  The exceptions that the modelled functions can let escape. Everything raised inside
  \<open>send_command\<close> is caught there and is therefore not an error value of the model.
\<close>

datatype error = ValueError | IndexError | OverflowError | ZeroDivisionError

text \<open>
  A Python \<open>str\<close> is a \<open>string\<close>; one \<open>char\<close> stands for one code point below 256,
  which covers the ASCII wire protocol of the firmware.
\<close>

text \<open>\<open>sub in s\<close> on strings: \<open>sub\<close> occurs as a contiguous block of \<open>s\<close>.\<close>

fun str_in :: "string \<Rightarrow> string \<Rightarrow> bool" where
  "str_in sub [] = (sub = [])"
| "str_in sub (c # cs) = (prefix sub (c # cs) \<or> str_in sub cs)"

text \<open>
  \<open>s.split(sep)\<close>: cut at every occurrence of \<open>sep\<close>, found from the left and not
  overlapping; \<open>cur\<close> is the piece being collected. The source only calls it with the
  constant separators \<open>"STATUS:"\<close>, \<open>"POS:"\<close>, \<open>","\<close> and \<open>":"\<close> (Python rejects an
  empty separator, which never occurs here).
\<close>

function split_from :: "string \<Rightarrow> string \<Rightarrow> string \<Rightarrow> string list" where
  "split_from sep cur [] = [cur]"
| "split_from sep cur (c # cs) =
     (if sep \<noteq> [] \<and> prefix sep (c # cs)
      then cur # split_from sep [] (drop (length sep) (c # cs))
      else split_from sep (cur @ [c]) cs)"
  by pat_completeness auto
termination
  by (relation "measure (\<lambda>(sep, cur, s). length s)") (auto simp: neq_Nil_conv)

definition py_split :: "string \<Rightarrow> string \<Rightarrow> string list" where
  "py_split s sep = split_from sep [] s"

text \<open>
  \<open>s.lower()\<close> on code points below 256: A-Z and the upper-case Latin-1 letters move
  up by 32, which sets bit 5 of the code point.
\<close>

definition lower_char :: "char \<Rightarrow> char" where
  "lower_char c =
     (let n = (of_char c :: nat)
      in if (65 \<le> n \<and> n \<le> 90) \<or> (192 \<le> n \<and> n \<le> 222 \<and> n \<noteq> 215)
         then (case c of Char b0 b1 b2 b3 b4 b5 b6 b7 \<Rightarrow> Char b0 b1 b2 b3 b4 True b6 b7)
         else c)"

definition py_lower :: "string \<Rightarrow> string" where
  "py_lower s = map lower_char s"

text \<open>\<open>s.strip()\<close>: drop the white space (\<open>str.isspace\<close>) at both ends.\<close>

definition is_space :: "char \<Rightarrow> bool" where
  "is_space c =
     (let n = (of_char c :: nat)
      in (9 \<le> n \<and> n \<le> 13) \<or> (28 \<le> n \<and> n \<le> 32) \<or> n = 133 \<or> n = 160)"

definition py_strip :: "string \<Rightarrow> string" where
  "py_strip s = rev (dropWhile is_space (rev (dropWhile is_space s)))"

section \<open>The robot controller (software/control/robot\_controller.py)\<close>

text \<open>
  The commands that \<open>send_command\<close> is called with. The text frame of a command is
  the constant or f-string of the source followed by a newline; the model records which
  command was written, not how its floats are printed.
\<close>

datatype command =
    HOME
  | MOVE real real real
  | PEN_UP
  | PEN_DOWN
  | SPEED real
  | STATUS
  | POS
  | STOP

text \<open>
  What the controller does to the outside world, in order: one \<open>Write\<close> for every call
  of \<open>self.serial.write\<close>, one \<open>Sleep\<close> for every \<open>time.sleep\<close> with its seconds.
\<close>

datatype event = Write command | Sleep real

text \<open>
  What one exchange on the serial line gives back: \<open>Line t\<close> when \<open>readline().decode()\<close>
  yields the text \<open>t\<close>, \<open>Fault\<close> when write, read or decode raises (the \<open>except
  Exception\<close> of \<open>send_command\<close> catches it).
\<close>

datatype reply = Line string | Fault

text \<open>
  The attributes of \<open>RobotController\<close>, and the serial line it talks to. \<open>serial\<close> is
  \<open>None\<close> or a port object with its \<open>is_open\<close> flag. \<open>incoming\<close> holds what the device
  will answer to the coming exchanges; when it is used up the device is silent and every
  \<open>readline\<close> times out with an empty line. \<open>trace\<close> is the list of events so far.
\<close>

record controller =
  port :: string
  baudrate :: int
  timeout :: real
  serial :: "bool option"
  is_connected :: bool
  is_homed :: bool
  incoming :: "reply list"
  trace :: "event list"

text \<open>\<open>__init__\<close>, in front of a device that will answer \<open>rs\<close>.\<close>

definition init :: "string \<Rightarrow> reply list \<Rightarrow> controller" where
  "init p rs =
     \<lparr>port = p, baudrate = 115200, timeout = 1, serial = None,
      is_connected = False, is_homed = False, incoming = rs, trace = []\<rparr>"

text \<open>
  \<open>connect\<close>: \<open>opens\<close> says whether \<open>serial.Serial(...)\<close> succeeds; if it raises
  \<open>SerialException\<close> nothing has been assigned.
\<close>

definition connect :: "bool \<Rightarrow> controller \<Rightarrow> bool \<times> controller" where
  "connect opens s =
     (if opens
      then (True, s\<lparr>serial := Some True, is_connected := True,
                     trace := trace s @ [Sleep 2]\<rparr>)
      else (False, s))"

definition disconnect :: "controller \<Rightarrow> controller" where
  "disconnect s =
     (if serial s = Some True
      then s\<lparr>serial := Some False, is_connected := False\<rparr>
      else s)"

text \<open>
  \<open>send_command\<close>. With no port object or a closed port \<open>self.serial.write\<close> raises
  before anything is written, and the exception is caught. Otherwise the command is
  written and one line is read and stripped.
\<close>

definition send_command :: "controller \<Rightarrow> command \<Rightarrow> string option \<times> controller" where
  "send_command s cmd =
     (if \<not> is_connected s then (None, s)
      else if serial s \<noteq> Some True then (None, s)
      else (case incoming s of
              [] \<Rightarrow> (Some [], s\<lparr>trace := trace s @ [Write cmd]\<rparr>)
            | Line t # rest \<Rightarrow>
                (Some (py_strip t), s\<lparr>incoming := rest, trace := trace s @ [Write cmd]\<rparr>)
            | Fault # rest \<Rightarrow>
                (None, s\<lparr>incoming := rest, trace := trace s @ [Write cmd]\<rparr>)))"

text \<open>The test \<open>response and "OK" in response\<close>: \<open>None\<close> and the empty string are falsy.\<close>

definition acknowledged :: "string option \<Rightarrow> bool" where
  "acknowledged response =
     (case response of None \<Rightarrow> False | Some r \<Rightarrow> r \<noteq> [] \<and> str_in ''OK'' r)"

definition home :: "controller \<Rightarrow> bool \<times> controller" where
  "home s =
     (case send_command s HOME of
        (response, s') \<Rightarrow>
          if acknowledged response then (True, s'\<lparr>is_homed := True\<rparr>) else (False, s'))"

text \<open>
  A status dictionary keeps insertion order and one value per key: an association list
  written with \<open>AList.update\<close>.
\<close>

type_synonym status = "(string \<times> bool) list"

text \<open>
  The \<open>for item in status_str.split(',')\<close> loop of \<open>get_status\<close>. The unpacking
  \<open>key, value = item.split(':')\<close> raises \<open>ValueError\<close> unless there are exactly two
  pieces.
\<close>

fun status_items :: "string list \<Rightarrow> status \<Rightarrow> error + status" where
  "status_items [] st = Inr st"
| "status_items (item # items) st =
     (case py_split item '':'' of
        [key, val] \<Rightarrow> status_items items (AList.update (py_lower key) (val = ''1'') st)
      | _ \<Rightarrow> Inl ValueError)"

text \<open>The body of \<open>get_status\<close> after the exchange, as a function of the response.\<close>

definition parse_status :: "string option \<Rightarrow> error + status option" where
  "parse_status response =
     (case response of
        None \<Rightarrow> Inr None
      | Some r \<Rightarrow>
          if r \<noteq> [] \<and> str_in ''STATUS:'' r
          then (case py_split r ''STATUS:'' of
                  _ # status_str # _ \<Rightarrow>
                    (case status_items (py_split status_str '','') [] of
                       Inl e \<Rightarrow> Inl e
                     | Inr st \<Rightarrow> Inr (Some st))
                | _ \<Rightarrow> Inl IndexError)
          else Inr None)"

definition get_status :: "controller \<Rightarrow> (error + status option) \<times> controller" where
  "get_status s =
     (case send_command s STATUS of (response, s') \<Rightarrow> (parse_status response, s'))"

text \<open>
  \<open>get_position\<close>. Python's built-in \<open>float\<close> is a parameter: \<open>to_float c\<close> is the
  number that \<open>float(c)\<close> returns, or \<open>None\<close> where it raises \<open>ValueError\<close>. The
  result \<open>tuple(coords)\<close> has as many components as there are pieces.
\<close>

fun floats :: "(string \<Rightarrow> real option) \<Rightarrow> string list \<Rightarrow> error + real list" where
  "floats to_float [] = Inr []"
| "floats to_float (c # cs) =
     (case to_float c of
        None \<Rightarrow> Inl ValueError
      | Some v \<Rightarrow>
          (case floats to_float cs of Inl e \<Rightarrow> Inl e | Inr vs \<Rightarrow> Inr (v # vs)))"

definition parse_position ::
    "(string \<Rightarrow> real option) \<Rightarrow> string option \<Rightarrow> error + real list option" where
  "parse_position to_float response =
     (case response of
        None \<Rightarrow> Inr None
      | Some r \<Rightarrow>
          if r \<noteq> [] \<and> str_in ''POS:'' r
          then (case py_split r ''POS:'' of
                  _ # pos_str # _ \<Rightarrow>
                    (case floats to_float (py_split pos_str '','') of
                       Inl e \<Rightarrow> Inl e
                     | Inr coords \<Rightarrow> Inr (Some coords))
                | _ \<Rightarrow> Inl IndexError)
          else Inr None)"

definition get_position ::
    "(string \<Rightarrow> real option) \<Rightarrow> controller \<Rightarrow> (error + real list option) \<times> controller" where
  "get_position to_float s =
     (case send_command s POS of (response, s') \<Rightarrow> (parse_position to_float response, s'))"

text \<open>
  The exit test of the completion poll, \<open>status and not status.get('moving', False)\<close>:
  \<open>None\<close> and the empty dictionary are falsy.
\<close>

definition poll_done :: "status option \<Rightarrow> bool" where
  "poll_done status =
     (case status of
        None \<Rightarrow> False
      | Some st \<Rightarrow>
          st \<noteq> [] \<and> \<not> (case map_of st ''moving'' of None \<Rightarrow> False | Some b \<Rightarrow> b))"

text \<open>
  The \<open>while True\<close> loop of \<open>move_to\<close> with the \<open>return True\<close> that follows it. The loop
  has no bound: the result \<open>None\<close> means that it never returns. An exception of
  \<open>get_status\<close> leaves the loop and \<open>move_to\<close>.
\<close>

partial_function (option) wait_until_idle ::
    "controller \<Rightarrow> ((error + bool) \<times> controller) option" where
  "wait_until_idle s =
     (case get_status s of
        (Inl e, s') \<Rightarrow> Some (Inl e, s')
      | (Inr status, s') \<Rightarrow>
          if poll_done status then Some (Inr True, s')
          else wait_until_idle (s'\<lparr>trace := trace s' @ [Sleep (1 / 10)]\<rparr>))"

definition move_to ::
    "controller \<Rightarrow> real \<Rightarrow> real \<Rightarrow> real \<Rightarrow> ((error + bool) \<times> controller) option" where
  "move_to s x y z =
     (if \<not> is_homed s then Some (Inr False, s)
      else (case send_command s (MOVE x y z) of
              (response, s') \<Rightarrow>
                if acknowledged response then wait_until_idle s'
                else Some (Inr False, s')))"


text \<open>
  Two notions for stating what a run of the poll loop does: the response that
  \<open>send_command\<close> returns for a reply of the device, and the events of the polls that
  did not end the loop (one \<open>STATUS\<close> exchange and one sleep of 0.1 s each).
\<close>

definition response_of :: "reply \<Rightarrow> string option" where
  "response_of q = (case q of Line t \<Rightarrow> Some (py_strip t) | Fault \<Rightarrow> None)"

definition poll_events :: "reply list \<Rightarrow> event list" where
  "poll_events pre = concat (map (\<lambda>q. [Write STATUS, Sleep (1 / 10)]) pre)"

text \<open>
  A controller that has connected and homed through the interface, in front of a device
  that will answer \<open>rs\<close> afterwards.
\<close>

definition example_homed :: "reply list \<Rightarrow> controller" where
  "example_homed rs = snd (home (snd (connect True (init ''COM3'' (Line ''OK'' # rs)))))"

section \<open>The kinematics solver (software/kinematics/inverse\_kinematics.py)\<close>

text \<open>
  Lengths, coordinates and angles are \<open>real\<close>: the model is the exact arithmetic that
  the floating-point code approximates. Where the floating-point code would produce
  an infinity or a NaN instead of a number (a division by zero, an arc sine outside its
  domain) the model has a branch of its own.
\<close>

record kinematics =
  l1 :: real
  l2 :: real
  base_width :: real
  min_x :: real
  max_x :: real
  min_y :: real
  max_y :: real

text \<open>\<open>__init__\<close>; the defaults of the source are 200, 200 and 100.\<close>

definition init_kinematics :: "real \<Rightarrow> real \<Rightarrow> real \<Rightarrow> kinematics" where
  "init_kinematics link1_length link2_length width =
     \<lparr>l1 = link1_length, l2 = link2_length, base_width = width,
      min_x = - 300, max_x = 300, min_y = 50, max_y = 400\<rparr>"

definition is_reachable :: "kinematics \<Rightarrow> real \<Rightarrow> real \<Rightarrow> bool" where
  "is_reachable k x y =
     (if x < min_x k \<or> x > max_x k then False
      else if y < min_y k \<or> y > max_y k then False
      else (let distance = sqrt (x\<^sup>2 + y\<^sup>2);
                max_reach = l1 k + l2 k;
                min_reach = \<bar>l1 k - l2 k\<bar>
            in min_reach \<le> distance \<and> distance \<le> max_reach))"

text \<open>\<open>np.arctan2(y, x)\<close>: the angle of the point \<open>(x, y)\<close>, in \<open>(-pi, pi]\<close>.\<close>

definition arctan2 :: "real \<Rightarrow> real \<Rightarrow> real" where
  "arctan2 y x =
     (if 0 < x then arctan (y / x)
      else if x < 0 then (if 0 \<le> y then arctan (y / x) + pi else arctan (y / x) - pi)
      else if 0 < y then pi / 2
      else if y < 0 then - (pi / 2)
      else 0)"

text \<open>\<open>np.degrees\<close>.\<close>

definition degrees :: "real \<Rightarrow> real" where
  "degrees r = r * 180 / pi"

text \<open>
  What \<open>solve\<close> returns when it does not return \<open>None\<close>: a pair of angles in degrees,
  or the pair \<open>(nan, nan)\<close>.
\<close>

datatype joint_angles = Angles real real | Nan_angles

text \<open>
  The validity check of \<open>solve\<close> and the arc cosine that follows it, as a function of
  the quotient \<open>cos_elbow\<close>: \<open>None\<close> where \<open>solve\<close> returns \<open>None\<close> at the check, else
  the elbow angle.
\<close>

definition elbow_angle_of :: "real \<Rightarrow> real option" where
  "elbow_angle_of cos_elbow =
     (if cos_elbow < - 1 \<or> cos_elbow > 1 then None else Some (arccos cos_elbow))"

text \<open>
  \<open>solve\<close>. With a link of length zero the quotient \<open>cos_elbow\<close> has divisor zero: it
  is an infinity when the dividend is not zero, which fails the validity check, and NaN
  when it is, which passes both comparisons and makes every later value NaN. A target
  at distance zero and an arc sine argument outside \<open>[-1, 1]\<close> give NaN as well.
\<close>

definition solve :: "kinematics \<Rightarrow> real \<Rightarrow> real \<Rightarrow> joint_angles option" where
  "solve k x y =
     (if \<not> is_reachable k x y then None
      else
        (let distance = sqrt (x\<^sup>2 + y\<^sup>2);
             max_reach = l1 k + l2 k;
             min_reach = \<bar>l1 k - l2 k\<bar>
         in if distance > max_reach \<or> distance < min_reach then None
            else if 2 * l1 k * l2 k = 0
            then (if (l1 k)\<^sup>2 + (l2 k)\<^sup>2 - distance\<^sup>2 = 0 then Some Nan_angles else None)
            else
              (let cos_elbow = ((l1 k)\<^sup>2 + (l2 k)\<^sup>2 - distance\<^sup>2) / (2 * l1 k * l2 k)
               in case elbow_angle_of cos_elbow of
                    None \<Rightarrow> None
                  | Some elbow_angle \<Rightarrow>
                    (let base_angle = arctan2 y x
                     in if distance = 0 then Some Nan_angles
                        else
                          (let ratio = (l2 k * sin elbow_angle) / distance
                           in if ratio < - 1 \<or> ratio > 1 then Some Nan_angles
                              else
                                (let angle2 = arcsin ratio;
                                     theta1 = degrees (base_angle - angle2);
                                     theta2 = degrees (base_angle + angle2)
                                 in Some (Angles theta1 theta2)))))))"

text \<open>
  The two regions of the specification: the annulus \<open>[|l1 - l2|, l1 + l2]\<close> of
  distances from the base, and the rectangular workspace.
\<close>

definition in_annulus :: "kinematics \<Rightarrow> real \<Rightarrow> real \<Rightarrow> bool" where
  "in_annulus k x y \<longleftrightarrow>
     \<bar>l1 k - l2 k\<bar> \<le> sqrt (x\<^sup>2 + y\<^sup>2) \<and> sqrt (x\<^sup>2 + y\<^sup>2) \<le> l1 k + l2 k"

definition in_rectangle :: "kinematics \<Rightarrow> real \<Rightarrow> real \<Rightarrow> bool" where
  "in_rectangle k x y \<longleftrightarrow> min_x k \<le> x \<and> x \<le> max_x k \<and> min_y k \<le> y \<and> y \<le> max_y k"

section \<open>Floating-point arithmetic\<close>

text \<open>
  The planner computes with Python floats and NumPy doubles. Its model takes the
  arithmetic as a parameter: a type \<open>'f\<close> of floating-point values and the operations
  that \<open>interpolate_path\<close> applies to them, each with the exceptions that the Python
  operation can raise.
  \<^item> \<open>fl_sub\<close>, \<open>fl_add\<close>, \<open>fl_mul\<close>: \<open>a - b\<close>, \<open>a + b\<close>, \<open>a * b\<close> on floats, which never
    raise;
  \<^item> \<open>fl_square\<close>: \<open>a ** 2\<close> on a float, which raises \<open>OverflowError\<close> when the result is
    out of range;
  \<^item> \<open>fl_sqrt\<close>: \<open>np.sqrt\<close>; \<open>fl_gt\<close>: the comparison \<open>a > b\<close>;
  \<^item> \<open>steps_of a b\<close>: \<open>int(np.ceil(a / b))\<close>, where \<open>int\<close> raises \<open>OverflowError\<close> on an
    infinity and \<open>ValueError\<close> on NaN;
  \<^item> \<open>int_div j n\<close>: the true division \<open>j / n\<close> of two Python integers.
\<close>

record 'f arith =
  fl_sub :: "'f \<Rightarrow> 'f \<Rightarrow> 'f"
  fl_add :: "'f \<Rightarrow> 'f \<Rightarrow> 'f"
  fl_mul :: "'f \<Rightarrow> 'f \<Rightarrow> 'f"
  fl_square :: "'f \<Rightarrow> error + 'f"
  fl_sqrt :: "'f \<Rightarrow> 'f"
  fl_gt :: "'f \<Rightarrow> 'f \<Rightarrow> bool"
  steps_of :: "'f \<Rightarrow> 'f \<Rightarrow> error + int"
  int_div :: "int \<Rightarrow> int \<Rightarrow> error + 'f"

subsection \<open>IEEE 754 binary64\<close>

text \<open>
  The doubles: the finite ones as the real numbers they denote, the two infinities and
  NaN. The two zeros are one value; the sign of a zero shows only in the sign of an
  infinite quotient, and both infinities make \<open>int\<close> raise the same exception.
\<close>

datatype double = Finite real | PosInf | NegInf | NaN

text \<open>Rounding to the nearest integer, a tie to the even one.\<close>

definition round_even :: "real \<Rightarrow> int" where
  "round_even r =
     (let f = \<lfloor>r\<rfloor>
      in if r - of_int f < 1 / 2 then f
         else if r - of_int f > 1 / 2 then f + 1
         else if even f then f else f + 1)"

text \<open>
  Rounding a real to 53 significant bits, to nearest and ties to even, with the
  exponent no lower than that of the subnormal numbers; then the overflow to an
  infinity, which happens when the rounded value reaches \<open>2 ^ 1024\<close>.
\<close>

definition rnd :: "real \<Rightarrow> real" where
  "rnd r =
     (if r = 0 then 0
      else (let e = max \<lfloor>log 2 \<bar>r\<bar>\<rfloor> (- 1022) - 52
            in of_int (round_even (r / 2 powr of_int e)) * 2 powr of_int e))"

definition to_double :: "real \<Rightarrow> double" where
  "to_double r =
     (let v = rnd r
      in if v \<ge> 2 ^ 1024 then PosInf
         else if v \<le> - (2 ^ 1024) then NegInf
         else Finite v)"

fun b64_add :: "double \<Rightarrow> double \<Rightarrow> double" where
  "b64_add (Finite a) (Finite b) = to_double (a + b)"
| "b64_add NaN b = NaN"
| "b64_add a NaN = NaN"
| "b64_add PosInf NegInf = NaN"
| "b64_add NegInf PosInf = NaN"
| "b64_add PosInf b = PosInf"
| "b64_add a PosInf = PosInf"
| "b64_add NegInf b = NegInf"
| "b64_add a NegInf = NegInf"

fun b64_sub :: "double \<Rightarrow> double \<Rightarrow> double" where
  "b64_sub (Finite a) (Finite b) = to_double (a - b)"
| "b64_sub NaN b = NaN"
| "b64_sub a NaN = NaN"
| "b64_sub PosInf PosInf = NaN"
| "b64_sub NegInf NegInf = NaN"
| "b64_sub PosInf b = PosInf"
| "b64_sub a NegInf = PosInf"
| "b64_sub NegInf b = NegInf"
| "b64_sub a PosInf = NegInf"

text \<open>An infinity times \<open>b\<close>: NaN for zero and NaN, else the infinity of the sign.\<close>

fun inf_times :: "bool \<Rightarrow> double \<Rightarrow> double" where
  "inf_times pos NaN = NaN"
| "inf_times pos PosInf = (if pos then PosInf else NegInf)"
| "inf_times pos NegInf = (if pos then NegInf else PosInf)"
| "inf_times pos (Finite b) =
     (if b = 0 then NaN else if (0 < b) = pos then PosInf else NegInf)"

fun b64_mul :: "double \<Rightarrow> double \<Rightarrow> double" where
  "b64_mul (Finite a) (Finite b) = to_double (a * b)"
| "b64_mul NaN b = NaN"
| "b64_mul PosInf b = inf_times True b"
| "b64_mul NegInf b = inf_times False b"
| "b64_mul a NaN = NaN"
| "b64_mul a PosInf = inf_times True a"
| "b64_mul a NegInf = inf_times False a"

text \<open>
  \<open>a ** 2\<close> on a Python float: the correctly rounded square, which is the square itself
  wherever that is a double, as in every example below; \<open>OverflowError\<close> when a finite
  \<open>a\<close> has a square out of range.
\<close>

fun b64_square :: "double \<Rightarrow> error + double" where
  "b64_square (Finite a) =
     (case to_double (a * a) of Finite v \<Rightarrow> Inr (Finite v) | _ \<Rightarrow> Inl OverflowError)"
| "b64_square NaN = Inr NaN"
| "b64_square a = Inr PosInf"

fun b64_sqrt :: "double \<Rightarrow> double" where
  "b64_sqrt (Finite a) = (if a < 0 then NaN else to_double (sqrt a))"
| "b64_sqrt PosInf = PosInf"
| "b64_sqrt a = NaN"

fun b64_gt :: "double \<Rightarrow> double \<Rightarrow> bool" where
  "b64_gt (Finite a) (Finite b) = (a > b)"
| "b64_gt NaN b = False"
| "b64_gt a NaN = False"
| "b64_gt NegInf b = False"
| "b64_gt a PosInf = False"
| "b64_gt a b = True"

text \<open>
  \<open>int(np.ceil(a / b))\<close>. The quotient of two finite doubles is NaN for \<open>0 / 0\<close>, an
  infinity for another division by zero or on overflow, else the rounded quotient; an
  infinity divided by a finite number is an infinity, a finite number divided by an
  infinity is zero, and every other case is NaN.
\<close>

fun b64_steps :: "double \<Rightarrow> double \<Rightarrow> error + int" where
  "b64_steps (Finite a) (Finite b) =
     (if b = 0 then (if a = 0 then Inl ValueError else Inl OverflowError)
      else (case to_double (a / b) of Finite q \<Rightarrow> Inr \<lceil>q\<rceil> | _ \<Rightarrow> Inl OverflowError))"
| "b64_steps NaN b = Inl ValueError"
| "b64_steps a NaN = Inl ValueError"
| "b64_steps (Finite a) b = Inr 0"
| "b64_steps a (Finite b) = Inl OverflowError"
| "b64_steps a b = Inl ValueError"

text \<open>
  \<open>j / n\<close> on Python integers: the correctly rounded quotient, \<open>ZeroDivisionError\<close> for
  \<open>n = 0\<close>, \<open>OverflowError\<close> when the quotient is out of range.
\<close>

definition b64_int_div :: "int \<Rightarrow> int \<Rightarrow> error + double" where
  "b64_int_div j n =
     (if n = 0 then Inl ZeroDivisionError
      else (case to_double (of_int j / of_int n) of
              Finite v \<Rightarrow> Inr (Finite v)
            | _ \<Rightarrow> Inl OverflowError))"

definition binary64 :: "double arith" where
  "binary64 =
     \<lparr>fl_sub = b64_sub, fl_add = b64_add, fl_mul = b64_mul, fl_square = b64_square,
      fl_sqrt = b64_sqrt, fl_gt = b64_gt, steps_of = b64_steps, int_div = b64_int_div\<rparr>"

section \<open>The path planner (software/calligraphy/path\_planner.py)\<close>

text \<open>
  \<open>PathPoint\<close>; its attributes \<open>x\<close> and \<open>y\<close> are the fields \<open>pt_x\<close> and \<open>pt_y\<close>,
  of the type \<open>'f\<close> of the coordinates.
\<close>

record 'f PathPoint =
  pt_x :: 'f
  pt_y :: 'f
  pen_down :: bool

text \<open>
  The attributes of \<open>CalligraphyPlanner\<close> that \<open>__init__\<close> sets. In \<open>plan_path\<close> the
  coordinates are \<open>real\<close>, as in the solver.
\<close>

record planner =
  workspace_width :: real
  workspace_height :: real
  current_path :: "real PathPoint list"

type_synonym stroke = "(real \<times> real) list"

text \<open>
  The inner loop of \<open>plan_path\<close> over the vertices of one stroke. Its state is the
  pair of loop variables \<open>scaled_x\<close>, \<open>scaled_y\<close>, which the statement after the loop
  reads, and the path.
\<close>

fun stroke_vertices ::
    "real \<Rightarrow> real \<Rightarrow> real \<Rightarrow> stroke \<Rightarrow> real \<times> real \<times> real PathPoint list
       \<Rightarrow> real \<times> real \<times> real PathPoint list" where
  "stroke_vertices scale offset_x offset_y [] st = st"
| "stroke_vertices scale offset_x offset_y ((x, y) # vs) (scaled_x, scaled_y, path) =
     (let scaled_x = x * scale + offset_x;
          scaled_y = y * scale + offset_y
      in stroke_vertices scale offset_x offset_y vs
           (scaled_x, scaled_y,
            path @ [\<lparr>pt_x = scaled_x, pt_y = scaled_y, pen_down = True\<rparr>]))"

text \<open>The body of the outer loop, for one stroke.\<close>

definition plan_stroke ::
    "real \<Rightarrow> real \<Rightarrow> real \<Rightarrow> stroke \<Rightarrow> real PathPoint list \<Rightarrow> real PathPoint list" where
  "plan_stroke scale offset_x offset_y stroke path =
     (case stroke of
        [] \<Rightarrow> path
      | (start_x, start_y) # _ \<Rightarrow>
          (let scaled_x = start_x * scale + offset_x;
               scaled_y = start_y * scale + offset_y;
               path = path @ [\<lparr>pt_x = scaled_x, pt_y = scaled_y, pen_down = False\<rparr>]
           in case stroke_vertices scale offset_x offset_y stroke (scaled_x, scaled_y, path) of
                (scaled_x, scaled_y, path) \<Rightarrow>
                  path @ [\<lparr>pt_x = scaled_x, pt_y = scaled_y, pen_down = False\<rparr>]))"

definition plan_path ::
    "planner \<Rightarrow> stroke list \<Rightarrow> real \<Rightarrow> real \<Rightarrow> real \<Rightarrow> real PathPoint list \<times> planner" where
  "plan_path pl strokes scale offset_x offset_y =
     (let path = fold (plan_stroke scale offset_x offset_y) strokes []
      in (path, pl\<lparr>current_path := path\<rparr>))"

text \<open>
  The inner loop of \<open>interpolate_path\<close> over \<open>j in range(1, num_steps)\<close>; an
  exception of the division ends it.
\<close>

fun interpolate_points ::
    "'f arith \<Rightarrow> 'f PathPoint \<Rightarrow> 'f \<Rightarrow> 'f \<Rightarrow> int \<Rightarrow> nat list \<Rightarrow> 'f PathPoint list
       \<Rightarrow> error + 'f PathPoint list" where
  "interpolate_points fp current dx dy num_steps [] interpolated = Inr interpolated"
| "interpolate_points fp current dx dy num_steps (j # js) interpolated =
     (case int_div fp (int j) num_steps of
        Inl e \<Rightarrow> Inl e
      | Inr t \<Rightarrow>
          (let interp_x = fl_add fp (pt_x current) (fl_mul fp t dx);
               interp_y = fl_add fp (pt_y current) (fl_mul fp t dy)
           in interpolate_points fp current dx dy num_steps js
                (interpolated @ [\<lparr>pt_x = interp_x, pt_y = interp_y, pen_down = True\<rparr>])))"

text \<open>
  The body of the outer loop for the index \<open>i\<close>, in the arithmetic \<open>fp\<close>: \<open>dx**2\<close> is
  evaluated before \<open>dy**2\<close>, and \<open>range(1, num_steps)\<close> is empty when \<open>num_steps\<close> is
  not above one.
\<close>

definition interpolate_step ::
    "'f arith \<Rightarrow> 'f PathPoint list \<Rightarrow> 'f \<Rightarrow> nat \<Rightarrow> 'f PathPoint list
       \<Rightarrow> error + 'f PathPoint list" where
  "interpolate_step fp path step_size i interpolated =
     (let current = path ! i;
          next_point = path ! (i + 1);
          interpolated = interpolated @ [current]
      in if pen_down current \<and> pen_down next_point
         then
           (let dx = fl_sub fp (pt_x next_point) (pt_x current);
                dy = fl_sub fp (pt_y next_point) (pt_y current)
            in case fl_square fp dx of
                 Inl e \<Rightarrow> Inl e
               | Inr dx2 \<Rightarrow>
                   (case fl_square fp dy of
                      Inl e \<Rightarrow> Inl e
                    | Inr dy2 \<Rightarrow>
                        (let distance = fl_sqrt fp (fl_add fp dx2 dy2)
                         in if fl_gt fp distance step_size
                            then
                              (case steps_of fp distance step_size of
                                 Inl e \<Rightarrow> Inl e
                               | Inr num_steps \<Rightarrow>
                                   interpolate_points fp current dx dy num_steps
                                     [1..<nat num_steps] interpolated)
                            else Inr interpolated)))
         else Inr interpolated)"

text \<open>The loop \<open>for i in range(len(path) - 1)\<close>; an exception ends it.\<close>

fun interpolate_loop ::
    "'f arith \<Rightarrow> 'f PathPoint list \<Rightarrow> 'f \<Rightarrow> nat list \<Rightarrow> 'f PathPoint list
       \<Rightarrow> error + 'f PathPoint list" where
  "interpolate_loop fp path step_size [] interpolated = Inr interpolated"
| "interpolate_loop fp path step_size (i # is) interpolated =
     (case interpolate_step fp path step_size i interpolated of
        Inl e \<Rightarrow> Inl e
      | Inr interpolated' \<Rightarrow> interpolate_loop fp path step_size is interpolated')"

text \<open>
  \<open>interpolate_path\<close>. For the empty path the range is empty and \<open>path[-1]\<close> raises
  \<open>IndexError\<close>.
\<close>

definition interpolate_path ::
    "'f arith \<Rightarrow> 'f PathPoint list \<Rightarrow> 'f \<Rightarrow> error + 'f PathPoint list" where
  "interpolate_path fp path step_size =
     (case interpolate_loop fp path step_size [0..<length path - 1] [] of
        Inl e \<Rightarrow> Inl e
      | Inr interpolated \<Rightarrow>
          if path = [] then Inl IndexError else Inr (interpolated @ [last path]))"

subsection \<open>The planner as the specification describes it\<close>

text \<open>
  A vertex placed on the page (\<open>x' = x * scale + offset_x\<close>, \<open>y' = y * scale +
  offset_y\<close>) with the pen up or down, and the points of one stroke: nothing for an
  empty stroke, else the lead-in at the first vertex, every vertex with the pen down,
  the lead-out at the last vertex.
\<close>

definition placed :: "real \<Rightarrow> real \<Rightarrow> real \<Rightarrow> bool \<Rightarrow> real \<times> real \<Rightarrow> real PathPoint" where
  "placed scale offset_x offset_y pen v =
     \<lparr>pt_x = fst v * scale + offset_x, pt_y = snd v * scale + offset_y, pen_down = pen\<rparr>"

definition stroke_points :: "real \<Rightarrow> real \<Rightarrow> real \<Rightarrow> stroke \<Rightarrow> real PathPoint list" where
  "stroke_points scale offset_x offset_y stroke =
     (if stroke = [] then []
      else placed scale offset_x offset_y False (hd stroke)
           # map (placed scale offset_x offset_y True) stroke
           @ [placed scale offset_x offset_y False (last stroke)])"

text \<open>
  The interpolation as the specification describes it, with the numbers that the
  arithmetic \<open>fp\<close> computes: the distance of two points; the point at \<open>t = j /
  num_steps\<close> on the segment between them, pen down; the points to insert between an
  adjacent pair, none unless both have the pen down and the distance exceeds the step
  size, else those for \<open>j = 1, ..., num_steps - 1\<close> with \<open>num_steps = ceil (distance /
  step)\<close>; and the whole path. An exception of the arithmetic is the result.
\<close>

definition pair_distance :: "'f arith \<Rightarrow> 'f PathPoint \<Rightarrow> 'f PathPoint \<Rightarrow> error + 'f" where
  "pair_distance fp p q =
     (case fl_square fp (fl_sub fp (pt_x q) (pt_x p)) of
        Inl e \<Rightarrow> Inl e
      | Inr dx2 \<Rightarrow>
          (case fl_square fp (fl_sub fp (pt_y q) (pt_y p)) of
             Inl e \<Rightarrow> Inl e
           | Inr dy2 \<Rightarrow> Inr (fl_sqrt fp (fl_add fp dx2 dy2))))"

definition between ::
    "'f arith \<Rightarrow> 'f PathPoint \<Rightarrow> 'f PathPoint \<Rightarrow> int \<Rightarrow> nat \<Rightarrow> error + 'f PathPoint" where
  "between fp p q num_steps j =
     (case int_div fp (int j) num_steps of
        Inl e \<Rightarrow> Inl e
      | Inr t \<Rightarrow>
          Inr \<lparr>pt_x = fl_add fp (pt_x p) (fl_mul fp t (fl_sub fp (pt_x q) (pt_x p))),
               pt_y = fl_add fp (pt_y p) (fl_mul fp t (fl_sub fp (pt_y q) (pt_y p))),
               pen_down = True\<rparr>)"

text \<open>The values of a list of results, or the first exception in it.\<close>

fun collect :: "(error + 'a) list \<Rightarrow> error + 'a list" where
  "collect [] = Inr []"
| "collect (r # rs) =
     (case r of
        Inl e \<Rightarrow> Inl e
      | Inr v \<Rightarrow> (case collect rs of Inl e \<Rightarrow> Inl e | Inr vs \<Rightarrow> Inr (v # vs)))"

definition inserted ::
    "'f arith \<Rightarrow> 'f \<Rightarrow> 'f PathPoint \<Rightarrow> 'f PathPoint \<Rightarrow> error + 'f PathPoint list" where
  "inserted fp step p q =
     (if pen_down p \<and> pen_down q
      then (case pair_distance fp p q of
              Inl e \<Rightarrow> Inl e
            | Inr distance \<Rightarrow>
                if fl_gt fp distance step
                then (case steps_of fp distance step of
                        Inl e \<Rightarrow> Inl e
                      | Inr num_steps \<Rightarrow>
                          collect (map (between fp p q num_steps) [1..<nat num_steps]))
                else Inr [])
      else Inr [])"

fun interpolated :: "'f arith \<Rightarrow> 'f \<Rightarrow> 'f PathPoint list \<Rightarrow> error + 'f PathPoint list" where
  "interpolated fp step [] = Inr []"
| "interpolated fp step [p] = Inr [p]"
| "interpolated fp step (p # q # r) =
     (case inserted fp step p q of
        Inl e \<Rightarrow> Inl e
      | Inr points \<Rightarrow>
          (case interpolated fp step (q # r) of
             Inl e \<Rightarrow> Inl e
           | Inr rest \<Rightarrow> Inr (p # points @ rest)))"

text \<open>
  The same for the pairs at the indices \<open>is\<close> of a path, without the last point: what
  the outer loop has appended after these indices.
\<close>

fun segments ::
    "'f arith \<Rightarrow> 'f \<Rightarrow> 'f PathPoint list \<Rightarrow> nat list \<Rightarrow> error + 'f PathPoint list" where
  "segments fp step path [] = Inr []"
| "segments fp step path (i # is) =
     (case inserted fp step (path ! i) (path ! Suc i) of
        Inl e \<Rightarrow> Inl e
      | Inr points \<Rightarrow>
          (case segments fp step path is of
             Inl e \<Rightarrow> Inl e
           | Inr rest \<Rightarrow> Inr (path ! i # points @ rest)))"

text \<open>
  The bound of the claim, for paths of doubles: two points are farther apart than the
  step size when their Euclidean distance, as a real number, is greater; this is said
  of finite coordinates and a finite step size only. In a path within the step size no
  two neighbours with the pen down are farther apart than it.
\<close>

fun farther_apart :: "double PathPoint \<Rightarrow> double PathPoint \<Rightarrow> double \<Rightarrow> bool" where
  "farther_apart
     \<lparr>pt_x = Finite a, pt_y = Finite b, pen_down = u\<rparr>
     \<lparr>pt_x = Finite c, pt_y = Finite d, pen_down = v\<rparr> (Finite s) =
       (sqrt ((c - a)\<^sup>2 + (d - b)\<^sup>2) > s)"
| "farther_apart p q s = False"

fun within_step :: "double \<Rightarrow> double PathPoint list \<Rightarrow> bool" where
  "within_step step (p # q # r) =
     ((pen_down p \<and> pen_down q \<longrightarrow> \<not> farther_apart p q step) \<and> within_step step (q # r))"
| "within_step step r = True"

section \<open>The controller: move before home\<close>

text \<open>
  C1. In every controller state whose \<open>is_homed\<close> flag is false, \<open>move_to\<close> returns
  \<open>False\<close> for all coordinates and leaves the whole state as it was: in particular the
  trace gains no \<open>Write\<close>, and no reply of the device is consumed.
\<close>

theorem move_to_before_home:
  assumes "\<not> is_homed s"
  shows "move_to s x y z = Some (Inr False, s)"
  using assms by (simp add: move_to_def)

theorem move_to_before_home_witness:
  "\<not> is_homed (snd (connect True (init ''COM3'' [Line ''OK'']))) \<and>
   move_to (snd (connect True (init ''COM3'' [Line ''OK'']))) 100 200 10
     = Some (Inr False, snd (connect True (init ''COM3'' [Line ''OK''])))"
proof -
  have h: "\<not> is_homed (snd (connect True (init ''COM3'' [Line ''OK''])))"
    by (simp add: connect_def init_def)
  show ?thesis
    using h move_to_before_home [OF h, of 100 200 10] by simp
qed

section \<open>The controller: the completion poll\<close>

text \<open>
  One exchange on an open connection: the command is written, the next reply of the
  device is consumed.
\<close>

lemma send_command_exchange:
  assumes "is_connected s" and "serial s = Some True" and "incoming s = q # rest"
  shows "send_command s cmd =
           (response_of q, s\<lparr>incoming := rest, trace := trace s @ [Write cmd]\<rparr>)"
  using assms by (cases q) (simp_all add: send_command_def response_of_def)

text \<open>
  The loop over the replies of the device: after the polls \<open>pre\<close>, none of which
  ends the loop, the poll that does end it returns \<open>True\<close>. Induction on \<open>pre\<close>, one
  unfolding of the loop per reply.
\<close>

lemma wait_until_idle_polls:
  assumes "is_connected s" and "serial s = Some True"
    and "incoming s = pre @ r # rest"
    and "\<forall>q \<in> set pre. \<exists>st. parse_status (response_of q) = Inr st \<and> \<not> poll_done st"
    and "parse_status (response_of r) = Inr st" and "poll_done st"
  shows "wait_until_idle s =
           Some (Inr True, s\<lparr>incoming := rest,
                               trace := trace s @ poll_events pre @ [Write STATUS]\<rparr>)"
  using assms
proof (induction pre arbitrary: s)
  case Nil
  then have "get_status s =
      (Inr st, s\<lparr>incoming := rest, trace := trace s @ [Write STATUS]\<rparr>)"
    by (simp add: get_status_def send_command_exchange)
  with Nil show ?case
    by (subst wait_until_idle.simps) (simp add: poll_events_def)
next
  case (Cons q pre)
  from Cons.prems obtain st' where
    st': "parse_status (response_of q) = Inr st'" "\<not> poll_done st'"
    by auto
  let ?s1 = "s\<lparr>incoming := pre @ r # rest, trace := trace s @ [Write STATUS]\<rparr>"
  let ?s2 = "?s1\<lparr>trace := trace ?s1 @ [Sleep (1 / 10)]\<rparr>"
  from Cons.prems st' have gs: "get_status s = (Inr st', ?s1)"
    by (simp add: get_status_def send_command_exchange)
  have "wait_until_idle ?s2 =
      Some (Inr True, ?s2\<lparr>incoming := rest,
                            trace := trace ?s2 @ poll_events pre @ [Write STATUS]\<rparr>)"
    using Cons.prems by (intro Cons.IH) simp_all
  with gs st' show ?case
    by (subst wait_until_idle.simps) (simp add: poll_events_def)
qed

text \<open>
  A status that \<open>get_status\<close> returns has at least one entry, since \<open>split\<close> returns
  at least one piece and every piece adds or overwrites an entry. Hence such a status
  is truthy in the exit test of the loop.
\<close>

lemma split_from_nonempty: "split_from sep cur s \<noteq> []"
  by (induction sep cur s rule: split_from.induct) auto

lemma update_nonempty: "AList.update k v al \<noteq> []"
  by (cases al) auto

lemma status_items_nonempty:
  "status_items items acc = Inr st \<Longrightarrow> items \<noteq> [] \<or> acc \<noteq> [] \<Longrightarrow> st \<noteq> []"
proof (induction items arbitrary: acc)
  case Nil
  then show ?case by simp
next
  case (Cons item items)
  from Cons.prems(1) obtain key val where
    "status_items items (AList.update (py_lower key) (val = ''1'') acc) = Inr st"
    by (auto split: list.splits)
  then show ?case
    by (rule Cons.IH) (simp add: update_nonempty)
qed

lemma parse_status_nonempty:
  assumes "parse_status response = Inr (Some st)"
  shows "st \<noteq> []"
  using assms
  by (auto simp: parse_status_def py_split_def split_from_nonempty
      split: option.splits if_splits list.splits sum.splits
      dest!: status_items_nonempty)

text \<open>The example controller, evaluated.\<close>

lemma example_homed_eq:
  "example_homed rs =
     \<lparr>port = ''COM3'', baudrate = 115200, timeout = 1, serial = Some True,
      is_connected = True, is_homed = True, incoming = rs,
      trace = [Sleep 2, Write HOME]\<rparr>"
  by (simp add: example_homed_def home_def connect_def init_def send_command_def
      acknowledged_def py_strip_def is_space_def)

lemmas parse_simps =
  response_of_def parse_status_def py_split_def py_lower_def lower_char_def
  py_strip_def is_space_def poll_done_def acknowledged_def

text \<open>
  C2. Let the controller be homed. (a) If the MOVE command is answered by a response
  that contains \<open>OK\<close>, the polls before reply \<open>r\<close> each kept the loop going, and \<open>r\<close>
  parses to a status whose \<open>moving\<close> entry is false, then \<open>move_to\<close> returns \<open>True\<close>;
  it has written MOVE once and STATUS once per poll, has slept 0.1 s between two polls,
  and the poll of \<open>r\<close> is the last event: the replies after \<open>r\<close> are still pending.
  (b) If the response to MOVE is missing or lacks \<open>OK\<close>, \<open>move_to\<close> returns \<open>False\<close>,
  the trace gains at most the MOVE write (no STATUS poll), and the flags of the
  controller are unchanged. The controller has no attribute for the motion sub-state:
  being in the poll loop is what the specification calls \<open>Moving\<close>.
\<close>

theorem move_to_acknowledged_polls:
  assumes "is_homed s"
  shows "(is_connected s \<and> serial s = Some True \<and> incoming s = ack # pre @ r # rest \<and>
          acknowledged (response_of ack) \<and>
          (\<forall>q \<in> set pre. \<exists>st. parse_status (response_of q) = Inr st \<and> \<not> poll_done st) \<and>
          parse_status (response_of r) = Inr (Some st) \<and> map_of st ''moving'' = Some False
          \<longrightarrow> move_to s x y z =
                Some (Inr True,
                      s\<lparr>incoming := rest,
                        trace := trace s @ Write (MOVE x y z) # poll_events pre @ [Write STATUS]\<rparr>))
       \<and> (\<not> acknowledged (fst (send_command s (MOVE x y z)))
          \<longrightarrow> (\<exists>s'. move_to s x y z = Some (Inr False, s') \<and>
                    is_connected s' = is_connected s \<and> is_homed s' = is_homed s \<and>
                    serial s' = serial s \<and>
                    (trace s' = trace s \<or> trace s' = trace s @ [Write (MOVE x y z)])))"
proof (intro conjI impI)
  assume a: "is_connected s \<and> serial s = Some True \<and> incoming s = ack # pre @ r # rest \<and>
          acknowledged (response_of ack) \<and>
          (\<forall>q \<in> set pre. \<exists>st. parse_status (response_of q) = Inr st \<and> \<not> poll_done st) \<and>
          parse_status (response_of r) = Inr (Some st) \<and> map_of st ''moving'' = Some False"
  let ?s1 = "s\<lparr>incoming := pre @ r # rest, trace := trace s @ [Write (MOVE x y z)]\<rparr>"
  from a have sc: "send_command s (MOVE x y z) = (response_of ack, ?s1)"
    by (simp add: send_command_exchange)
  from a have "st \<noteq> []" by (auto dest: parse_status_nonempty)
  with a have pd: "poll_done (Some st)" by (simp add: poll_done_def)
  have "wait_until_idle ?s1 =
      Some (Inr True, ?s1\<lparr>incoming := rest,
                            trace := trace ?s1 @ poll_events pre @ [Write STATUS]\<rparr>)"
    using a pd by (intro wait_until_idle_polls [where r = r and st = "Some st"]) simp_all
  with assms a sc show "move_to s x y z =
      Some (Inr True, s\<lparr>incoming := rest,
              trace := trace s @ Write (MOVE x y z) # poll_events pre @ [Write STATUS]\<rparr>)"
    by (simp add: move_to_def)
next
  assume n: "\<not> acknowledged (fst (send_command s (MOVE x y z)))"
  obtain response s' where sc: "send_command s (MOVE x y z) = (response, s')"
    by (cases "send_command s (MOVE x y z)")
  then have "is_connected s' = is_connected s \<and> is_homed s' = is_homed s \<and>
      serial s' = serial s \<and>
      (trace s' = trace s \<or> trace s' = trace s @ [Write (MOVE x y z)])"
    by (auto simp: send_command_def split: if_splits list.splits reply.splits)
  moreover from assms n sc have "move_to s x y z = Some (Inr False, s')"
    by (simp add: move_to_def)
  ultimately show "\<exists>s'. move_to s x y z = Some (Inr False, s') \<and>
      is_connected s' = is_connected s \<and> is_homed s' = is_homed s \<and>
      serial s' = serial s \<and>
      (trace s' = trace s \<or> trace s' = trace s @ [Write (MOVE x y z)])"
    by blast
qed

theorem move_to_acknowledged_polls_witness:
  "is_homed (example_homed [Line ''OK'', Line ''STATUS:moving:1,homed:1'', Fault,
                            Line ''STATUS:moving:0,homed:1'', Line ''late'']) \<and>
   move_to (example_homed [Line ''OK'', Line ''STATUS:moving:1,homed:1'', Fault,
                           Line ''STATUS:moving:0,homed:1'', Line ''late'']) 100 200 10 =
     Some (Inr True,
       \<lparr>port = ''COM3'', baudrate = 115200, timeout = 1, serial = Some True,
        is_connected = True, is_homed = True, incoming = [Line ''late''],
        trace = [Sleep 2, Write HOME, Write (MOVE 100 200 10),
                 Write STATUS, Sleep (1 / 10), Write STATUS, Sleep (1 / 10),
                 Write STATUS]\<rparr>) \<and>
   is_homed (example_homed [Line ''ERR'']) \<and>
   \<not> acknowledged (fst (send_command (example_homed [Line ''ERR'']) (MOVE 100 200 10))) \<and>
   (\<exists>s'. move_to (example_homed [Line ''ERR'']) 100 200 10 = Some (Inr False, s') \<and>
         is_homed s' \<and> is_connected s' \<and>
         trace s' = [Sleep 2, Write HOME, Write (MOVE 100 200 10)])"
proof -
  let ?s = "example_homed [Line ''OK'', Line ''STATUS:moving:1,homed:1'', Fault,
                           Line ''STATUS:moving:0,homed:1'', Line ''late'']"
  let ?t = "example_homed [Line ''ERR'']"
  have h: "is_homed ?s" and h': "is_homed ?t"
    by (simp_all add: example_homed_eq)
  have a: "is_connected ?s \<and> serial ?s = Some True \<and>
      incoming ?s = Line ''OK'' # [Line ''STATUS:moving:1,homed:1'', Fault]
                    @ Line ''STATUS:moving:0,homed:1'' # [Line ''late''] \<and>
      acknowledged (response_of (Line ''OK'')) \<and>
      (\<forall>q \<in> set [Line ''STATUS:moving:1,homed:1'', Fault].
         \<exists>st. parse_status (response_of q) = Inr st \<and> \<not> poll_done st) \<and>
      parse_status (response_of (Line ''STATUS:moving:0,homed:1''))
        = Inr (Some [(''moving'', False), (''homed'', True)]) \<and>
      map_of [(''moving'', False), (''homed'', True)] ''moving'' = Some False"
    by (simp add: example_homed_eq parse_simps)
  have n: "\<not> acknowledged (fst (send_command ?t (MOVE 100 200 10)))"
    by (simp add: example_homed_eq send_command_def parse_simps)
  from move_to_acknowledged_polls [OF h, of "Line ''OK''"
      "[Line ''STATUS:moving:1,homed:1'', Fault]" "Line ''STATUS:moving:0,homed:1''"
      "[Line ''late'']" "[(''moving'', False), (''homed'', True)]" 100 200 10] a
  have m: "move_to ?s 100 200 10 =
      Some (Inr True, ?s\<lparr>incoming := [Line ''late''],
         trace := trace ?s @ Write (MOVE 100 200 10)
           # poll_events [Line ''STATUS:moving:1,homed:1'', Fault] @ [Write STATUS]\<rparr>)"
    by blast
  from move_to_acknowledged_polls [OF h', of "Line ''OK''" "[]" "Line ''OK''" "[]" "[]"
      100 200 10] n
  obtain s' where "move_to ?t 100 200 10 = Some (Inr False, s')"
    "is_connected s' = is_connected ?t" "is_homed s' = is_homed ?t"
    "trace s' = trace ?t \<or> trace s' = trace ?t @ [Write (MOVE 100 200 10)]"
    by blast
  moreover have "move_to ?t 100 200 10 =
     Some (Inr False, ?t\<lparr>incoming := [], trace := trace ?t @ [Write (MOVE 100 200 10)]\<rparr>)"
    by (simp add: move_to_def example_homed_eq send_command_def parse_simps)
  ultimately have "\<exists>s'. move_to ?t 100 200 10 = Some (Inr False, s') \<and>
         is_homed s' \<and> is_connected s' \<and>
         trace s' = [Sleep 2, Write HOME, Write (MOVE 100 200 10)]"
    by (simp add: example_homed_eq)
  with h h' n m show ?thesis
    by (simp add: example_homed_eq poll_events_def)
qed

text \<open>
  C10. Let the controller be homed and connected and the MOVE command be acknowledged.
  If the polls before reply \<open>r\<close> each kept the loop going and \<open>r\<close> parses to a
  status with no \<open>moving\<close> entry, then the loop ends at \<open>r\<close>: \<open>move_to\<close> returns
  \<open>True\<close>, the poll of \<open>r\<close> is its last event and the later replies stay pending.
\<close>

theorem move_to_status_without_moving:
  assumes "is_homed s" and "is_connected s" and "serial s = Some True"
    and "incoming s = ack # pre @ r # rest"
    and "acknowledged (response_of ack)"
    and "\<forall>q \<in> set pre. \<exists>st. parse_status (response_of q) = Inr st \<and> \<not> poll_done st"
    and "parse_status (response_of r) = Inr (Some st)"
    and "map_of st ''moving'' = None"
  shows "move_to s x y z =
           Some (Inr True,
                 s\<lparr>incoming := rest,
                   trace := trace s @ Write (MOVE x y z) # poll_events pre @ [Write STATUS]\<rparr>)"
proof -
  let ?s1 = "s\<lparr>incoming := pre @ r # rest, trace := trace s @ [Write (MOVE x y z)]\<rparr>"
  from assms have sc: "send_command s (MOVE x y z) = (response_of ack, ?s1)"
    by (simp add: send_command_exchange)
  from assms(7) have "st \<noteq> []" by (rule parse_status_nonempty)
  with assms(8) have pd: "poll_done (Some st)" by (simp add: poll_done_def)
  have "wait_until_idle ?s1 =
      Some (Inr True, ?s1\<lparr>incoming := rest,
                            trace := trace ?s1 @ poll_events pre @ [Write STATUS]\<rparr>)"
    using assms pd by (intro wait_until_idle_polls [where r = r and st = "Some st"]) simp_all
  with assms(1,5) sc show ?thesis
    by (simp add: move_to_def)
qed

theorem move_to_status_without_moving_witness:
  "is_homed (example_homed [Line ''OK'', Line ''STATUS:moving:1'', Line ''STATUS:homed:1'',
                            Line ''STATUS:moving:1'']) \<and>
   parse_status (response_of (Line ''STATUS:homed:1'')) = Inr (Some [(''homed'', True)]) \<and>
   map_of [(''homed'', True)] ''moving'' = None \<and>
   move_to (example_homed [Line ''OK'', Line ''STATUS:moving:1'', Line ''STATUS:homed:1'',
                           Line ''STATUS:moving:1'']) 100 200 10 =
     Some (Inr True,
       \<lparr>port = ''COM3'', baudrate = 115200, timeout = 1, serial = Some True,
        is_connected = True, is_homed = True, incoming = [Line ''STATUS:moving:1''],
        trace = [Sleep 2, Write HOME, Write (MOVE 100 200 10),
                 Write STATUS, Sleep (1 / 10), Write STATUS]\<rparr>)"
proof -
  let ?s = "example_homed [Line ''OK'', Line ''STATUS:moving:1'', Line ''STATUS:homed:1'',
                           Line ''STATUS:moving:1'']"
  have h: "is_homed ?s" "is_connected ?s" "serial ?s = Some True"
    "incoming ?s = Line ''OK'' # [Line ''STATUS:moving:1''] @ Line ''STATUS:homed:1''
                   # [Line ''STATUS:moving:1'']"
    by (simp_all add: example_homed_eq)
  have a: "acknowledged (response_of (Line ''OK''))"
    "\<forall>q \<in> set [Line ''STATUS:moving:1''].
        \<exists>st. parse_status (response_of q) = Inr st \<and> \<not> poll_done st"
    "parse_status (response_of (Line ''STATUS:homed:1'')) = Inr (Some [(''homed'', True)])"
    "map_of [(''homed'', True)] ''moving'' = None"
    by (simp_all add: parse_simps)
  from move_to_status_without_moving [OF h a, of 100 200 10] h(1) a(3,4)
  show ?thesis
    by (simp add: example_homed_eq poll_events_def)
qed

section \<open>The controller: parsing the status and position responses\<close>

text \<open>
  The two particular cases that the specification names hold: the well-formed status
  line parses to both flags, and a line without the marker gives \<open>None\<close>.
\<close>

lemma parse_status_example:
  "parse_status (Some ''STATUS:moving:1,homed:1'')
     = Inr (Some [(''moving'', True), (''homed'', True)])"
  by (simp add: parse_simps)

lemma parse_status_without_marker:
  "\<not> str_in ''STATUS:'' r \<Longrightarrow> parse_status (Some r) = Inr None"
  by (simp add: parse_status_def)

text \<open>
  C7. The claim is that no response makes \<open>get_status\<close> or \<open>get_position\<close> raise.
  The source unpacks every comma-separated piece after the marker into exactly two
  parts, so a response with the marker and a piece that is not \<open>key:value\<close> raises
  \<open>ValueError\<close> out of \<open>get_status\<close>: the marker alone, a trailing comma, a key without
  value.
\<close>

theorem get_status_raises_on_malformed_item:
  "fst (get_status (example_homed [Line ''STATUS:''])) = Inl ValueError \<and>
   fst (get_status (example_homed [Line ''STATUS:moving:1,homed:1,''])) = Inl ValueError \<and>
   fst (get_status (example_homed [Line ''STATUS:moving''])) = Inl ValueError"
  by (simp add: get_status_def send_command_def example_homed_eq parse_simps)

text \<open>
  \<open>get_position\<close> has the same shape: \<open>float\<close> raises on the empty piece that follows
  the bare marker.
\<close>

lemma get_position_raises_on_malformed_item:
  assumes "to_float [] = None"
  shows "fst (get_position to_float (example_homed [Line ''POS:''])) = Inl ValueError"
  using assms
  by (simp add: get_position_def parse_position_def send_command_def example_homed_eq parse_simps)

section \<open>The controller: disconnecting and connecting again\<close>

text \<open>Neither \<open>disconnect\<close> nor \<open>connect\<close> writes \<open>is_homed\<close>.\<close>

lemma is_homed_kept:
  "is_homed (disconnect s) = is_homed s" "is_homed (snd (connect opens s)) = is_homed s"
  by (simp_all add: disconnect_def connect_def)

text \<open>
  C9. The claim is that after \<open>disconnect\<close> and a successful \<open>connect\<close> a move is
  rejected until \<open>home\<close> succeeds again. In the source a controller that was homed
  before the disconnect is not connected after it, but still has \<open>is_homed\<close> set after
  connecting again, and \<open>move_to\<close> then writes the MOVE command and returns \<open>True\<close>
  with no HOME in between.
\<close>

theorem reconnect_keeps_is_homed:
  "\<not> is_connected (disconnect (example_homed [Line ''OK'', Line ''STATUS:moving:0'']))
   \<and> is_homed (snd (connect True (disconnect (example_homed [Line ''OK'', Line ''STATUS:moving:0'']))))
   \<and> move_to (snd (connect True
                (disconnect (example_homed [Line ''OK'', Line ''STATUS:moving:0''])))) 100 200 10 =
     Some (Inr True,
       \<lparr>port = ''COM3'', baudrate = 115200, timeout = 1, serial = Some True,
        is_connected = True, is_homed = True, incoming = [],
        trace = [Sleep 2, Write HOME, Sleep 2, Write (MOVE 100 200 10), Write STATUS]\<rparr>)"
  by (simp add: example_homed_eq disconnect_def connect_def move_to_def send_command_def
      wait_until_idle.simps get_status_def parse_simps)

section \<open>The solver: reachability\<close>

text \<open>
  \<open>is_reachable\<close> is the conjunction of the two region tests, and \<open>solve\<close> returns a
  value only behind it.
\<close>

lemma is_reachable_iff: "is_reachable k x y \<longleftrightarrow> in_rectangle k x y \<and> in_annulus k x y"
  by (auto simp: is_reachable_def in_rectangle_def in_annulus_def Let_def)

lemma solve_Some_reachable: "solve k x y = Some a \<Longrightarrow> is_reachable k x y"
  by (auto simp: solve_def split: if_splits)

text \<open>Two targets on the y axis, for the default configuration.\<close>

lemma sqrt_300: "sqrt (0\<^sup>2 + 300\<^sup>2) = (300::real)"
  by (rule real_sqrt_unique) simp_all

lemma sqrt_500: "sqrt (0\<^sup>2 + 500\<^sup>2) = (500::real)"
  by (rule real_sqrt_unique) simp_all

lemma solve_example: "\<exists>a. solve (init_kinematics 200 200 100) 0 300 = Some a"
  by (simp add: solve_def elbow_angle_of_def is_reachable_def init_kinematics_def Let_def
      sqrt_300)

text \<open>
  C3. For every configuration and every target: if the target is outside the annulus
  or outside the workspace rectangle, \<open>solve\<close> returns \<open>None\<close> and \<open>is_reachable\<close>
  returns false; and if \<open>solve\<close> returns a value, the target lies in the annulus and in
  the rectangle.
\<close>

theorem solve_and_is_reachable_agree:
  "(\<not> in_annulus k x y \<or> \<not> in_rectangle k x y
      \<longrightarrow> solve k x y = None \<and> \<not> is_reachable k x y) \<and>
   (\<forall>a. solve k x y = Some a \<longrightarrow> in_annulus k x y \<and> in_rectangle k x y)"
proof (intro conjI impI allI)
  assume out: "\<not> in_annulus k x y \<or> \<not> in_rectangle k x y"
  then show "\<not> is_reachable k x y"
    by (auto simp: is_reachable_iff)
  then show "solve k x y = None"
    by (simp add: solve_def)
next
  fix a
  assume "solve k x y = Some a"
  then have "is_reachable k x y"
    by (rule solve_Some_reachable)
  then show "in_annulus k x y" and "in_rectangle k x y"
    by (simp_all add: is_reachable_iff)
qed

theorem solve_and_is_reachable_agree_witness:
  "\<not> in_annulus (init_kinematics 200 200 100) 0 500 \<and>
   solve (init_kinematics 200 200 100) 0 500 = None \<and>
   \<not> is_reachable (init_kinematics 200 200 100) 0 500 \<and>
   (\<exists>a. solve (init_kinematics 200 200 100) 0 300 = Some a) \<and>
   in_annulus (init_kinematics 200 200 100) 0 300 \<and>
   in_rectangle (init_kinematics 200 200 100) 0 300"
proof -
  have out: "\<not> in_annulus (init_kinematics 200 200 100) 0 500"
    by (simp add: in_annulus_def init_kinematics_def sqrt_500)
  obtain a where a: "solve (init_kinematics 200 200 100) 0 300 = Some a"
    using solve_example by blast
  from out solve_and_is_reachable_agree [of "init_kinematics 200 200 100" 0 500]
  have "solve (init_kinematics 200 200 100) 0 500 = None \<and>
      \<not> is_reachable (init_kinematics 200 200 100) 0 500"
    by blast
  moreover from a solve_and_is_reachable_agree [of "init_kinematics 200 200 100" 0 300]
  have "in_annulus (init_kinematics 200 200 100) 0 300 \<and>
      in_rectangle (init_kinematics 200 200 100) 0 300"
    by blast
  ultimately show ?thesis
    using out a by blast
qed

section \<open>The solver: the validity check of the elbow cosine\<close>

text \<open>
  In exact arithmetic and with links of positive length the law-of-cosines quotient of a
  target in the annulus lies in \<open>[-1, 1]\<close>, and \<open>solve\<close> returns \<open>None\<close> for
  unreachable targets only. So where the running code returns \<open>None\<close> at the validity
  check for a target that \<open>is_reachable\<close> accepts, rounding has moved the quotient out
  of the interval.
\<close>

lemma cos_elbow_in_range:
  assumes "0 < l1 k" and "0 < l2 k" and "in_annulus k x y"
  shows "- 1 \<le> ((l1 k)\<^sup>2 + (l2 k)\<^sup>2 - (sqrt (x\<^sup>2 + y\<^sup>2))\<^sup>2) / (2 * l1 k * l2 k)"
    and "((l1 k)\<^sup>2 + (l2 k)\<^sup>2 - (sqrt (x\<^sup>2 + y\<^sup>2))\<^sup>2) / (2 * l1 k * l2 k) \<le> 1"
proof -
  let ?d = "sqrt (x\<^sup>2 + y\<^sup>2)"
  have d0: "0 \<le> ?d" by simp
  from assms(3) have lo: "\<bar>l1 k - l2 k\<bar> \<le> ?d" and hi: "?d \<le> l1 k + l2 k"
    by (simp_all add: in_annulus_def)
  from lo have "(l1 k - l2 k)\<^sup>2 \<le> ?d\<^sup>2"
    by (metis abs_le_square_iff abs_of_nonneg d0)
  then have a: "(l1 k)\<^sup>2 + (l2 k)\<^sup>2 - ?d\<^sup>2 \<le> 2 * l1 k * l2 k"
    by (simp add: power2_diff)
  from hi d0 have "?d\<^sup>2 \<le> (l1 k + l2 k)\<^sup>2"
    by (rule_tac power_mono) 
  then have b: "- (2 * l1 k * l2 k) \<le> (l1 k)\<^sup>2 + (l2 k)\<^sup>2 - ?d\<^sup>2"
    by (simp add: power2_sum)
  from assms(1,2) have pos: "0 < 2 * l1 k * l2 k" by simp
  from a pos show "((l1 k)\<^sup>2 + (l2 k)\<^sup>2 - ?d\<^sup>2) / (2 * l1 k * l2 k) \<le> 1"
    by (simp add: divide_le_eq)
  from b pos show "- 1 \<le> ((l1 k)\<^sup>2 + (l2 k)\<^sup>2 - ?d\<^sup>2) / (2 * l1 k * l2 k)"
    by (simp add: le_divide_eq)
qed

lemma solve_None_iff:
  assumes "0 < l1 k" and "0 < l2 k"
  shows "solve k x y = None \<longleftrightarrow> \<not> is_reachable k x y"
proof
  assume none: "solve k x y = None"
  show "\<not> is_reachable k x y"
  proof
    assume r: "is_reachable k x y"
    then have ann: "in_annulus k x y"
      by (simp add: is_reachable_iff)
    note c = cos_elbow_in_range [OF assms ann]
    from assms have nz: "l1 k \<noteq> 0" "l2 k \<noteq> 0" by simp_all
    from ann have "\<not> (sqrt (x\<^sup>2 + y\<^sup>2) > l1 k + l2 k \<or> sqrt (x\<^sup>2 + y\<^sup>2) < \<bar>l1 k - l2 k\<bar>)"
      by (auto simp: in_annulus_def)
    with r c nz have "solve k x y \<noteq> None"
      by (simp add: solve_def elbow_angle_of_def Let_def not_less del: real_sqrt_pow2_iff
          split: if_splits)
    with none show False by contradiction
  qed
next
  assume "\<not> is_reachable k x y"
  then show "solve k x y = None"
    by (simp add: solve_def)
qed

text \<open>
  The check compares with \<open>-1\<close> and \<open>1\<close> themselves: a quotient outside the interval
  is rejected however little it is outside, and no quotient is moved into the interval.
\<close>

lemma elbow_angle_of_no_tolerance:
  assumes "0 < tol"
  shows "elbow_angle_of (- 1 - tol) = None" and "elbow_angle_of (1 + tol) = None"
  using assms by (simp_all add: elbow_angle_of_def)

lemma elbow_angle_of_Some:
  "elbow_angle_of c = Some a \<longleftrightarrow> - 1 \<le> c \<and> c \<le> 1 \<and> a = arccos c"
  by (auto simp: elbow_angle_of_def)

text \<open>
  C6. The claim is that the quotient is clamped to \<open>[-1, 1]\<close> and that \<open>solve\<close> returns
  \<open>None\<close> at this check only when the quotient is outside the interval by more than a
  floating-point tolerance. For the links 94.6 and 236.0 and the target \<open>(0, 330.6)\<close>,
  which is at the distance \<open>l1 + l2\<close> and which \<open>is_reachable\<close> accepts, the doubles of
  the source give the quotient \<open>-1.0000000000000004\<close>, two units in the last place
  below \<open>-1\<close>; the check rejects it, and it rejects the double next above \<open>1\<close>.
\<close>

theorem elbow_check_rejects_rounding_error:
  "elbow_angle_of (- 1 - 1 / 2 ^ 51) = None \<and> elbow_angle_of (1 + 1 / 2 ^ 52) = None"
  by (simp add: elbow_angle_of_def)

section \<open>The planner: from strokes to points\<close>

text \<open>
  The loop over the vertices appends one pen-down point per vertex and leaves the
  last placed vertex in the loop variables; so one stroke appends its points as the
  specification lists them.
\<close>

lemma stroke_vertices_eq:
  "stroke_vertices scale ox oy vs (sx, sy, path) =
     (if vs = [] then (sx, sy, path)
      else (fst (last vs) * scale + ox, snd (last vs) * scale + oy,
            path @ map (placed scale ox oy True) vs))"
proof (induction vs arbitrary: sx sy path)
  case Nil
  then show ?case by simp
next
  case (Cons v vs)
  obtain x y where v: "v = (x, y)" by (cases v)
  show ?case
    by (simp add: v Cons.IH placed_def Let_def)
qed

lemma plan_stroke_eq:
  "plan_stroke scale ox oy stroke path = path @ stroke_points scale ox oy stroke"
proof (cases stroke)
  case Nil
  then show ?thesis
    by (simp add: plan_stroke_def stroke_points_def)
next
  case (Cons v vs)
  obtain x y where v: "v = (x, y)" by (cases v)
  have "stroke_vertices scale ox oy stroke
          (x * scale + ox, y * scale + oy, path @ [placed scale ox oy False v]) =
        (fst (last stroke) * scale + ox, snd (last stroke) * scale + oy,
         (path @ [placed scale ox oy False v]) @ map (placed scale ox oy True) stroke)"
    using Cons by (subst stroke_vertices_eq) simp
  then show ?thesis
    using Cons v by (simp add: plan_stroke_def stroke_points_def placed_def Let_def)
qed

lemma fold_plan_stroke:
  "fold (plan_stroke scale ox oy) strokes path =
     path @ concat (map (stroke_points scale ox oy) strokes)"
  by (induction strokes arbitrary: path) (simp_all add: plan_stroke_eq)

text \<open>
  C4. For all strokes, scale and offsets the path that \<open>plan_path\<close> returns is the
  concatenation, in stroke order, of the points of each stroke: nothing for an empty
  stroke, else a pen-up point at the placed first vertex, a pen-down point at every
  placed vertex in order, and a pen-up point at the placed last vertex. On the stroke
  \<open>[(50, 100), (150, 100)]\<close> with scale 1 and offsets 0 and 200 these are the four
  points of the specification.
\<close>

theorem plan_path_points:
  "fst (plan_path pl strokes scale offset_x offset_y) =
     concat (map (stroke_points scale offset_x offset_y) strokes) \<and>
   fst (plan_path pl [[(50, 100), (150, 100)]] 1 0 200) =
     [\<lparr>pt_x = 50, pt_y = 300, pen_down = False\<rparr>,
      \<lparr>pt_x = 50, pt_y = 300, pen_down = True\<rparr>,
      \<lparr>pt_x = 150, pt_y = 300, pen_down = True\<rparr>,
      \<lparr>pt_x = 150, pt_y = 300, pen_down = False\<rparr>]"
proof
  show "fst (plan_path pl strokes scale offset_x offset_y) =
      concat (map (stroke_points scale offset_x offset_y) strokes)"
    by (simp add: plan_path_def fold_plan_stroke Let_def)
  show "fst (plan_path pl [[(50, 100), (150, 100)]] 1 0 200) =
     [\<lparr>pt_x = 50, pt_y = 300, pen_down = False\<rparr>,
      \<lparr>pt_x = 50, pt_y = 300, pen_down = True\<rparr>,
      \<lparr>pt_x = 150, pt_y = 300, pen_down = True\<rparr>,
      \<lparr>pt_x = 150, pt_y = 300, pen_down = False\<rparr>]"
    by (simp add: plan_path_def plan_stroke_def Let_def)
qed


section \<open>The planner: interpolation\<close>

text \<open>
  In every arithmetic the loops of \<open>interpolate_path\<close> compute the list that the
  specification describes: every point but the last followed by the points inserted
  between it and its successor, then the last point; and they raise the first exception
  that this description meets.
\<close>

lemma interpolate_points_eq:
  "interpolate_points fp p (fl_sub fp (pt_x q) (pt_x p)) (fl_sub fp (pt_y q) (pt_y p)) n js acc =
     (case collect (map (between fp p q n) js) of
        Inl e \<Rightarrow> Inl e
      | Inr points \<Rightarrow> Inr (acc @ points))"
proof (induction js arbitrary: acc)
  case Nil
  then show ?case by simp
next
  case (Cons j js)
  show ?case
  proof (cases "int_div fp (int j) n")
    case (Inl e)
    then show ?thesis by (simp add: between_def)
  next
    case (Inr t)
    then show ?thesis
      by (simp add: between_def Cons.IH Let_def split: sum.splits)
  qed
qed

lemma interpolate_step_eq:
  "interpolate_step fp path step i acc =
     (case inserted fp step (path ! i) (path ! Suc i) of
        Inl e \<Rightarrow> Inl e
      | Inr points \<Rightarrow> Inr (acc @ path ! i # points))"
  by (simp add: interpolate_step_def inserted_def pair_distance_def Let_def
      interpolate_points_eq split: sum.splits)

lemma interpolate_loop_eq:
  "interpolate_loop fp path step is acc =
     (case segments fp step path is of Inl e \<Rightarrow> Inl e | Inr out \<Rightarrow> Inr (acc @ out))"
  by (induction "is" arbitrary: acc) (simp_all add: interpolate_step_eq split: sum.splits)

lemma segments_shift:
  "segments fp step (p # path) (map Suc is) = segments fp step path is"
  by (induction "is") (simp_all split: sum.splits)

lemma segments_eq:
  "path \<noteq> [] \<Longrightarrow>
   (case segments fp step path [0..<length path - 1] of
      Inl e \<Rightarrow> Inl e
    | Inr out \<Rightarrow> Inr (out @ [last path])) = interpolated fp step path"
proof (induction fp step path rule: interpolated.induct)
  case (1 fp step)
  then show ?case by simp
next
  case (2 fp step p)
  then show ?case by simp
next
  case (3 fp step p q r)
  have "[0..<length (p # q # r) - 1] = 0 # map Suc [0..<length (q # r) - 1]"
    by (simp add: upt_conv_Cons map_Suc_upt del: upt_Suc)
  then have seg: "segments fp step (p # q # r) [0..<length (p # q # r) - 1] =
      (case inserted fp step p q of
         Inl e \<Rightarrow> Inl e
       | Inr points \<Rightarrow>
           (case segments fp step (q # r) [0..<length (q # r) - 1] of
              Inl e \<Rightarrow> Inl e
            | Inr rest \<Rightarrow> Inr (p # points @ rest)))"
    by (simp only: segments.simps segments_shift) (simp split: sum.splits)
  show ?case
  proof (cases "inserted fp step p q")
    case (Inl e)
    then show ?thesis
      by (simp only: seg) simp
  next
    case (Inr points)
    then have "(case segments fp step (q # r) [0..<length (q # r) - 1] of
        Inl e \<Rightarrow> Inl e
      | Inr out \<Rightarrow> Inr (out @ [last (q # r)])) = interpolated fp step (q # r)"
      using "3.IH" by simp
    with Inr show ?thesis
      by (simp only: seg) (auto split: sum.splits)
  qed
qed


lemma interpolate_path_segments:
  assumes "path \<noteq> []"
  shows "interpolate_path fp path step_size =
           (case segments fp step_size path [0..<length path - 1] of
              Inl e \<Rightarrow> Inl e
            | Inr out \<Rightarrow> Inr (out @ [last path]))"
  using assms by (simp add: interpolate_path_def interpolate_loop_eq split: sum.splits)

text \<open>
  C5, as amended. For every arithmetic, path and step size, \<open>interpolate_path\<close> raises
  \<open>IndexError\<close> on the empty path and otherwise returns the interpolated path of the
  specification or the first exception of its arithmetic: between two adjacent points
  that both have the pen down and whose computed distance exceeds the step size it
  inserts the \<open>num_steps - 1\<close> pen-down points at \<open>t = j / num_steps\<close>, with \<open>num_steps =
  int (ceil (distance / step_size))\<close> as computed, and every other pair is passed
  through unchanged. Nothing is said of how far apart the neighbours of the result are.
\<close>

theorem interpolate_path_inserts:
  "interpolate_path fp path step_size =
     (if path = [] then Inl IndexError else interpolated fp step_size path)"
proof (cases "path = []")
  case True
  then show ?thesis
    by (simp add: interpolate_path_def)
next
  case False
  then have "interpolate_path fp path step_size =
      (case segments fp step_size path [0..<length path - 1] of
         Inl e \<Rightarrow> Inl e
       | Inr out \<Rightarrow> Inr (out @ [last path]))"
    by (rule interpolate_path_segments)
  with False show ?thesis
    by (simp only: segments_eq [OF False] if_False)
qed

section \<open>The planner: the spacing of the result in binary64\<close>

text \<open>
  A real number whose binary exponent is known rounds by rounding its multiple of the
  quantum to an integer. This evaluates \<open>rnd\<close> on the numbers below, whose quanta
  are negative powers of two.
\<close>

lemma rnd_eval:
  assumes "2 ^ 52 \<le> \<bar>r\<bar> * 2 ^ n" and "\<bar>r\<bar> * 2 ^ n < 2 ^ 53" and "n \<le> 1074"
  shows "rnd r = of_int (round_even (r * 2 ^ n)) / 2 ^ n"
proof -
  define K :: real where "K = 2 ^ n"
  have K: "0 < K" by (simp add: K_def)
  have Kp: "2 powr real n = K"
    by (simp add: K_def powr_realpow)
  from assms(1) have nz: "r \<noteq> 0" by auto
  then have pos: "0 < \<bar>r\<bar>" by simp
  have p: "2 powr (52 - real n) = 2 ^ 52 / K"
    by (simp only: powr_diff Kp) simp
  have "53 - real n = 52 - real n + 1" by simp
  then have p1: "2 powr (52 - real n + 1) = 2 ^ 53 / K"
    by (simp only: powr_diff powr_add Kp) simp
  from assms(1) K have lo: "2 powr (52 - real n) \<le> \<bar>r\<bar>"
    unfolding p K_def [symmetric] by (simp add: field_simps)
  from assms(2) K have hi: "\<bar>r\<bar> < 2 powr (52 - real n + 1)"
    unfolding p1 K_def [symmetric] by (simp add: field_simps)
  have "real_of_int (52 - int n) = 52 - real n" by simp
  with pos lo hi have fl: "\<lfloor>log 2 \<bar>r\<bar>\<rfloor> = 52 - int n"
    by (subst floor_log_eq_powr_iff) simp_all
  from assms(3) have mx: "max (52 - int n) (- 1022) - 52 = - int n"
    by simp
  have q: "2 powr (- real n) = 1 / K"
    by (simp only: powr_minus Kp inverse_eq_divide)
  have "rnd r = of_int (round_even (r / 2 powr of_int (- int n))) * 2 powr of_int (- int n)"
    using nz by (simp only: rnd_def fl mx Let_def if_False)
  also have "of_int (- int n) = - real n" by simp
  finally show ?thesis
    by (simp add: q K_def)
qed


lemma to_double_eval:
  assumes "rnd r = v" and "\<bar>v\<bar> < 2 ^ 1024"
  shows "to_double r = Finite v"
  using assms by (auto simp: to_double_def Let_def)

lemma to_double_0: "to_double 0 = Finite 0"
  by (rule to_double_eval) (simp_all add: rnd_def)

lemma to_double_1: "to_double 1 = Finite 1"
proof (rule to_double_eval)
  show "rnd 1 = 1"
    by (subst rnd_eval [where n = 52]) (simp_all add: round_even_def)
qed simp

lemma to_double_third:
  "to_double (1 / 3) = Finite (6004799503160661 / 18014398509481984)"
proof (rule to_double_eval)
  show "rnd (1 / 3) = 6004799503160661 / 18014398509481984"
    by (subst rnd_eval [where n = 54]) (simp_all add: round_even_def)
qed simp

lemma to_double_two_thirds:
  "to_double (2 / 3) = Finite (6004799503160661 / 9007199254740992)"
proof (rule to_double_eval)
  show "rnd (2 / 3) = 6004799503160661 / 9007199254740992"
    by (subst rnd_eval [where n = 53]) (simp_all add: round_even_def)
qed simp

lemma to_double_s:
  "to_double (6004799503160661 / 18014398509481984) =
     Finite (6004799503160661 / 18014398509481984)"
proof (rule to_double_eval)
  show "rnd (6004799503160661 / 18014398509481984) = 6004799503160661 / 18014398509481984"
    by (subst rnd_eval [where n = 54]) (simp_all add: round_even_def)
qed simp

lemma to_double_2s:
  "to_double (6004799503160661 / 9007199254740992) =
     Finite (6004799503160661 / 9007199254740992)"
proof (rule to_double_eval)
  show "rnd (6004799503160661 / 9007199254740992) = 6004799503160661 / 9007199254740992"
    by (subst rnd_eval [where n = 53]) (simp_all add: round_even_def)
qed simp

lemma to_double_quotient:
  "to_double (18014398509481984 / 6004799503160661) = Finite 3"
proof (rule to_double_eval)
  show "rnd (18014398509481984 / 6004799503160661) = 3"
    by (subst rnd_eval [where n = 51]) (simp_all add: round_even_def)
qed simp

lemmas to_double_values =
  to_double_0 to_double_1 to_double_third to_double_two_thirds to_double_s to_double_2s
  to_double_quotient

lemma upt_1_3: "[Suc 0..<3] = [Suc 0, 2]"
  by (simp add: upt_conv_Cons)


text \<open>
  C5, the claim as stated: no two pen-down neighbours of the result are farther apart
  than the step size. In binary64 the path from \<open>(0, 0)\<close> to \<open>(1, 0)\<close>, pen down, with
  the step size \<open>1/3\<close> (the double \<open>0.3333333333333333\<close>, which is less than a third)
  has the quotient \<open>3.0\<close>, so two points are inserted, at the doubles nearest to
  \<open>1/3\<close> and \<open>2/3\<close>; the last of them is farther from \<open>(1, 0)\<close> than the step size.
\<close>

theorem spacing_counterexample:
  "interpolate_path binary64
     [\<lparr>pt_x = Finite 0, pt_y = Finite 0, pen_down = True\<rparr>,
      \<lparr>pt_x = Finite 1, pt_y = Finite 0, pen_down = True\<rparr>]
     (Finite (6004799503160661 / 18014398509481984)) =
   Inr [\<lparr>pt_x = Finite 0, pt_y = Finite 0, pen_down = True\<rparr>,
        \<lparr>pt_x = Finite (6004799503160661 / 18014398509481984), pt_y = Finite 0, pen_down = True\<rparr>,
        \<lparr>pt_x = Finite (6004799503160661 / 9007199254740992), pt_y = Finite 0, pen_down = True\<rparr>,
        \<lparr>pt_x = Finite 1, pt_y = Finite 0, pen_down = True\<rparr>] \<and>
   \<not> within_step (Finite (6004799503160661 / 18014398509481984))
       [\<lparr>pt_x = Finite 0, pt_y = Finite 0, pen_down = True\<rparr>,
        \<lparr>pt_x = Finite (6004799503160661 / 18014398509481984), pt_y = Finite 0, pen_down = True\<rparr>,
        \<lparr>pt_x = Finite (6004799503160661 / 9007199254740992), pt_y = Finite 0, pen_down = True\<rparr>,
        \<lparr>pt_x = Finite 1, pt_y = Finite 0, pen_down = True\<rparr>]"
proof
  show "interpolate_path binary64
     [\<lparr>pt_x = Finite 0, pt_y = Finite 0, pen_down = True\<rparr>,
      \<lparr>pt_x = Finite 1, pt_y = Finite 0, pen_down = True\<rparr>]
     (Finite (6004799503160661 / 18014398509481984)) =
   Inr [\<lparr>pt_x = Finite 0, pt_y = Finite 0, pen_down = True\<rparr>,
        \<lparr>pt_x = Finite (6004799503160661 / 18014398509481984), pt_y = Finite 0, pen_down = True\<rparr>,
        \<lparr>pt_x = Finite (6004799503160661 / 9007199254740992), pt_y = Finite 0, pen_down = True\<rparr>,
        \<lparr>pt_x = Finite 1, pt_y = Finite 0, pen_down = True\<rparr>]"
    by (simp add: interpolate_path_def interpolate_step_def binary64_def b64_int_div_def
        to_double_values upt_1_3 Let_def)
  have "sqrt ((1 - 6004799503160661 / 9007199254740992)\<^sup>2) > (6004799503160661 / 18014398509481984 :: real)"
    by simp
  then show "\<not> within_step (Finite (6004799503160661 / 18014398509481984))
       [\<lparr>pt_x = Finite 0, pt_y = Finite 0, pen_down = True\<rparr>,
        \<lparr>pt_x = Finite (6004799503160661 / 18014398509481984), pt_y = Finite 0, pen_down = True\<rparr>,
        \<lparr>pt_x = Finite (6004799503160661 / 9007199254740992), pt_y = Finite 0, pen_down = True\<rparr>,
        \<lparr>pt_x = Finite 1, pt_y = Finite 0, pen_down = True\<rparr>]"
    by simp
qed

section \<open>The planner: what a returned path keeps of its input\<close>

text \<open>
  When \<open>interpolate_path\<close> returns, its argument was not empty, and the result is at
  least as long as the path, contains the points of the path in their order, and ends
  with the last point of the path.
\<close>

lemma interpolated_Cons:
  "interpolated fp step (q # r) = Inr out \<Longrightarrow> \<exists>rest. out = q # rest"
  by (cases r) (auto split: sum.splits)

lemma interpolated_result:
  "interpolated fp step path = Inr out \<Longrightarrow>
     length path \<le> length out \<and> subseq path out \<and> (path \<noteq> [] \<longrightarrow> last out = last path)"
proof (induction fp step path arbitrary: out rule: interpolated.induct)
  case (1 fp step)
  then show ?case by simp
next
  case (2 fp step p)
  then show ?case by auto
next
  case (3 fp step p q r)
  from "3.prems" obtain points rest where
    ins: "inserted fp step p q = Inr points"
    and rest: "interpolated fp step (q # r) = Inr rest"
    and out: "out = p # points @ rest"
    by (auto split: sum.splits)
  from "3.IH" [OF ins rest] have IH: "length (q # r) \<le> length rest"
    "subseq (q # r) rest" "last rest = last (q # r)"
    by simp_all
  from rest obtain rest' where "rest = q # rest'"
    by (auto dest: interpolated_Cons)
  then have "rest \<noteq> []" by simp
  moreover from IH(2) have "subseq (q # r) (points @ rest)"
    by (rule list_emb_append2)
  ultimately show ?case
    using IH(1,3) out by simp
qed

lemma interpolate_path_result:
  assumes "interpolate_path fp path step_size = Inr out"
  shows "path \<noteq> [] \<and> length path \<le> length out \<and> subseq path out \<and> last out = last path"
proof -
  from assms have ne: "path \<noteq> []"
    by (auto simp: interpolate_path_def split: sum.splits if_splits)
  with assms have "interpolated fp step_size path = Inr out"
    by (simp only: interpolate_path_segments [OF ne] segments_eq [OF ne])
  with ne show ?thesis
    by (auto dest: interpolated_result)
qed

text \<open>
  C8. The claim is that \<open>interpolate_path\<close> never fails. On the empty path, which
  \<open>create_simple_character\<close> returns for an unknown character and which
  \<open>get_path_bounds\<close> tests for, the final statement \<open>interpolated.append(path[-1])\<close>
  raises \<open>IndexError\<close>, whatever the step size.
\<close>

theorem interpolate_path_empty:
  "interpolate_path fp [] step_size = Inl IndexError"
  by (simp add: interpolate_path_def)

text \<open>
  A step size of zero fails as well when two pen-down neighbours differ: the quotient
  is infinite.
\<close>

lemma interpolate_path_zero_step:
  "interpolate_path binary64
     [\<lparr>pt_x = Finite 0, pt_y = Finite 0, pen_down = True\<rparr>,
      \<lparr>pt_x = Finite 1, pt_y = Finite 0, pen_down = True\<rparr>] (Finite 0) = Inl OverflowError"
  by (simp add: interpolate_path_def interpolate_step_def binary64_def to_double_values Let_def)

text \<open>
  So does a positive step size when the arithmetic overflows: the square of a
  coordinate difference of \<open>2 ^ 600\<close> is out of range.
\<close>

lemma rnd_power_of_two:
  assumes "52 \<le> n"
  shows "rnd (2 ^ n) = 2 ^ n"
proof -
  have fl: "\<lfloor>log 2 \<bar>2 ^ n :: real\<bar>\<rfloor> = int n"
    by simp
  from assms have mx: "max (int n) (- 1022) - 52 = int (n - 52)"
    by simp
  have q: "2 powr (of_int (int (n - 52))) = (2::real) ^ (n - 52)"
    by (simp add: powr_realpow)
  from assms have n: "n = 52 + (n - 52)"
    by simp
  have split: "(2::real) ^ n = 2 ^ 52 * 2 ^ (n - 52)"
    by (subst n) (rule power_add)
  then have d: "(2::real) ^ n / 2 ^ (n - 52) = 2 ^ 52"
    by simp
  have r: "round_even (2 ^ 52) = 2 ^ 52"
    by (simp add: round_even_def)
  have "rnd (2 ^ n) = of_int (round_even (2 ^ n / 2 ^ (n - 52))) * 2 ^ (n - 52)"
    by (simp only: rnd_def fl mx q Let_def) simp
  also have "\<dots> = 2 ^ 52 * 2 ^ (n - 52)"
    by (simp only: d r) simp
  also have "\<dots> = 2 ^ n"
    by (rule split [symmetric])
  finally show ?thesis .
qed

lemma to_double_2_600: "to_double (2 ^ 600) = Finite (2 ^ 600)"
proof (rule to_double_eval)
  show "rnd (2 ^ 600) = 2 ^ 600"
    by (rule rnd_power_of_two) simp
qed simp

lemma to_double_2_1200: "to_double (2 ^ 1200) = PosInf"
proof -
  have "rnd (2 ^ 1200) = 2 ^ 1200"
    by (rule rnd_power_of_two) simp
  moreover have "(2::real) ^ 1024 \<le> 2 ^ 1200"
    by simp
  ultimately show ?thesis
    by (simp only: to_double_def Let_def if_True)
qed

lemma interpolate_path_overflow:
  "interpolate_path binary64
     [\<lparr>pt_x = Finite 0, pt_y = Finite 0, pen_down = True\<rparr>,
      \<lparr>pt_x = Finite (2 ^ 600), pt_y = Finite 0, pen_down = True\<rparr>] (Finite 5) =
   Inl OverflowError"
proof -
  have "(2::real) ^ 600 * 2 ^ 600 = 2 ^ 1200"
    by (simp flip: power_add)
  then have "b64_square (Finite (2 ^ 600)) = Inl OverflowError"
    by (simp only: b64_square.simps to_double_2_1200) simp
  moreover have "b64_sub (Finite (2 ^ 600)) (Finite 0) = Finite (2 ^ 600)"
    by (simp only: b64_sub.simps diff_zero to_double_2_600)
  ultimately show ?thesis
    by (simp add: interpolate_path_def interpolate_step_def binary64_def Let_def
        del: power_numeral b64_sub.simps b64_square.simps)
qed

end
